theory Spec2Isabelle
  imports Complex_Main
begin

section \<open>Strings\<close>

text \<open>
  A Python \<open>str\<close> is a sequence of Unicode code points; a code point is a natural number.
  \<open>ord_str\<close> turns an ASCII literal into its code points, so that examples stay readable.
\<close>

type_synonym pystr = "nat list"

definition ord_str :: "string \<Rightarrow> pystr" where
  "ord_str s = map of_char s"

text \<open>
  The characters that \<open>\s\<close> matches in a \<open>str\<close> pattern and that \<open>str.strip()\<close> removes:
  U+0009..U+000D, U+001C..U+0020, U+0085, U+00A0, U+1680, U+2000..U+200A, U+2028, U+2029,
  U+202F, U+205F, U+3000.
\<close>

definition py_isspace :: "nat \<Rightarrow> bool" where
  "py_isspace c \<longleftrightarrow>
     (9 \<le> c \<and> c \<le> 13) \<or> (28 \<le> c \<and> c \<le> 32) \<or> c = 133 \<or> c = 160 \<or> c = 5760 \<or>
     (8192 \<le> c \<and> c \<le> 8202) \<or> c = 8232 \<or> c = 8233 \<or> c = 8239 \<or> c = 8287 \<or> c = 12288"

text \<open>\<open>str.strip()\<close>: drop leading and trailing whitespace.\<close>

definition py_strip :: "pystr \<Rightarrow> pystr" where
  "py_strip s = rev (dropWhile py_isspace (rev (dropWhile py_isspace s)))"


section \<open>document\_processor.py\<close>

subsection \<open>DocumentChunk\<close>

text \<open>
  The dataclass \<open>DocumentChunk\<close>. Its fields carry the prefix \<open>c_\<close> here, because
  \<open>text\<close> and \<open>section\<close> are reserved words of the theory language.
\<close>

record DocumentChunk =
  c_text :: pystr
  c_title :: pystr
  c_section :: pystr
  c_source_url :: pystr
  c_country :: pystr
  c_category :: pystr
  c_chunk_id :: nat
  c_total_chunks :: nat

text \<open>
  A document as loaded from JSON: a dictionary from field names to strings. Every raise of
  the source is a value of \<open>error\<close>: the \<open>KeyError\<close> of a missing dictionary key, with
  the key; the \<open>IndexError\<close> of list and shape indexing; what the index library raises on
  a query of the wrong dimension (\<open>AssertionError\<close>) or a non-positive \<open>k\<close>
  (\<open>RuntimeError\<close>); what the collaborators of \<open>build_index\<close> may raise; and the plain
  \<open>Exception\<close> of \<open>search\<close>, with its message.
\<close>

type_synonym document = "string \<rightharpoonup> pystr"

datatype error =
    KeyError string
  | IndexError
  | AssertionError
  | RuntimeError
  | FileNotFoundError
  | JSONDecodeError
  | OSError
  | ModelError
  | Exception pystr

subsection \<open>clean\_text\<close>

text \<open>
  \<open>re.sub(r'\s+', ' ', text)\<close>: every maximal run of whitespace becomes one space
  (U+0020, code point 32).
\<close>

function sub_whitespace :: "pystr \<Rightarrow> pystr" where
  "sub_whitespace [] = []"
| "sub_whitespace (c # cs) =
     (if py_isspace c then 32 # sub_whitespace (dropWhile py_isspace cs)
      else c # sub_whitespace cs)"
  by pat_completeness auto
termination
  by (relation "measure length") (auto simp: length_dropWhile_le less_Suc_eq_le)

text \<open>\<open>re.sub(r'[^\x20-\x7E]', '', text)\<close> keeps exactly the code points 0x20..0x7E.\<close>

definition printable :: "nat \<Rightarrow> bool" where
  "printable c \<longleftrightarrow> 32 \<le> c \<and> c \<le> 126"

definition clean_text :: "pystr \<Rightarrow> pystr" where
  "clean_text t = py_strip (filter printable (sub_whitespace t))"

subsection \<open>split\_into\_chunks\<close>

text \<open>
  \<open>re.split(r'(?<=[.!?])\s+', text)\<close>: a separator is a maximal run of whitespace whose
  preceding character is one of \<open>.\<close> (46), \<open>!\<close> (33), \<open>?\<close> (63). The first argument is the
  piece read so far.
\<close>

definition sentence_end :: "nat \<Rightarrow> bool" where
  "sentence_end c \<longleftrightarrow> c = 46 \<or> c = 33 \<or> c = 63"

function re_split_from :: "pystr \<Rightarrow> pystr \<Rightarrow> pystr list" where
  "re_split_from piece [] = [piece]"
| "re_split_from piece [c] = [piece @ [c]]"
| "re_split_from piece (c # d # cs) =
     (if sentence_end c \<and> py_isspace d
      then (piece @ [c]) # re_split_from [] (dropWhile py_isspace cs)
      else re_split_from (piece @ [c]) (d # cs))"
  by pat_completeness auto
termination
  by (relation "measure (\<lambda>(piece, t). length t)")
     (auto simp: length_dropWhile_le less_Suc_eq_le le_SucI)

definition re_split :: "pystr \<Rightarrow> pystr list" where
  "re_split t = re_split_from [] t"

text \<open>
  One iteration of \<open>for sentence in sentences\<close>; the loop state is
  \<open>(chunks, current_chunk)\<close>.
\<close>

fun pack_step :: "int \<Rightarrow> pystr \<Rightarrow> pystr list \<times> pystr \<Rightarrow> pystr list \<times> pystr" where
  "pack_step chunk_size sentence (chunks, current_chunk) =
     (if int (length current_chunk) + int (length sentence) + 1 \<le> chunk_size
      then (chunks,
            if current_chunk \<noteq> [] then current_chunk @ [32] @ sentence else sentence)
      else (if current_chunk \<noteq> [] then chunks @ [py_strip current_chunk] else chunks,
            sentence))"

fun last_chunk :: "pystr list \<times> pystr \<Rightarrow> pystr list" where
  "last_chunk (chunks, current_chunk) =
     (if current_chunk \<noteq> [] then chunks @ [py_strip current_chunk] else chunks)"

definition split_into_chunks :: "int \<Rightarrow> pystr \<Rightarrow> pystr list" where
  "split_into_chunks chunk_size t =
     (if int (length t) \<le> chunk_size then [t]
      else last_chunk (fold (pack_step chunk_size) (re_split t) ([], [])))"

subsection \<open>process\_documents\<close>

text \<open>\<open>doc.get(key, '')\<close>.\<close>

definition doc_get :: "document \<Rightarrow> string \<Rightarrow> pystr" where
  "doc_get doc k = (case doc k of None \<Rightarrow> [] | Some v \<Rightarrow> v)"

text \<open>
  The constructor call of the inner loop. Its keyword arguments are evaluated in the order
  written, so the first missing key among \<open>title\<close>, \<open>country\<close>, \<open>category\<close> raises.
\<close>

definition make_chunk :: "document \<Rightarrow> nat \<Rightarrow> nat \<Rightarrow> pystr \<Rightarrow> error + DocumentChunk" where
  "make_chunk doc n idx t =
     (case doc ''title'' of None \<Rightarrow> Inl (KeyError ''title'') | Some ti \<Rightarrow>
      (case doc ''country'' of None \<Rightarrow> Inl (KeyError ''country'') | Some co \<Rightarrow>
       (case doc ''category'' of None \<Rightarrow> Inl (KeyError ''category'') | Some ca \<Rightarrow>
          Inr \<lparr>c_text = t, c_title = ti, c_section = doc_get doc ''section'',
               c_source_url = doc_get doc ''source_url'', c_country = co, c_category = ca,
               c_chunk_id = idx, c_total_chunks = n\<rparr>)))"

text \<open>\<open>for idx, text in enumerate(text_chunks)\<close>, from index \<open>idx\<close> on.\<close>

fun make_chunks :: "document \<Rightarrow> nat \<Rightarrow> nat \<Rightarrow> pystr list \<Rightarrow> error + DocumentChunk list" where
  "make_chunks doc n idx [] = Inr []"
| "make_chunks doc n idx (t # ts) =
     (case make_chunk doc n idx t of
        Inl e \<Rightarrow> Inl e
      | Inr chunk \<Rightarrow>
          (case make_chunks doc n (Suc idx) ts of
             Inl e \<Rightarrow> Inl e
           | Inr rest \<Rightarrow> Inr (chunk # rest)))"

text \<open>The body of \<open>for doc in documents\<close>: the chunks one document contributes.\<close>

definition doc_chunks :: "int \<Rightarrow> document \<Rightarrow> error + DocumentChunk list" where
  "doc_chunks chunk_size doc =
     (case doc ''content'' of
        None \<Rightarrow> Inl (KeyError ''content'')
      | Some content \<Rightarrow>
          (let text_chunks = split_into_chunks chunk_size (clean_text content)
           in make_chunks doc (length text_chunks) 0 text_chunks))"

fun process_loop :: "int \<Rightarrow> DocumentChunk list \<Rightarrow> document list \<Rightarrow> error + DocumentChunk list" where
  "process_loop chunk_size all_chunks [] = Inr all_chunks"
| "process_loop chunk_size all_chunks (doc # documents) =
     (case doc_chunks chunk_size doc of
        Inl e \<Rightarrow> Inl e
      | Inr new \<Rightarrow> process_loop chunk_size (all_chunks @ new) documents)"

definition process_documents :: "int \<Rightarrow> document list \<Rightarrow> error + DocumentChunk list" where
  "process_documents chunk_size documents = process_loop chunk_size [] documents"


section \<open>retriever.py\<close>

subsection \<open>The flat L2 index\<close>

text \<open>
  \<open>faiss.IndexFlatL2\<close> belongs to the vector-search library the retriever calls, not to the
  repository. It is modelled by the contract the library documents for it: the index stores
  vectors of one dimension in insertion order; \<open>search(x, k)\<close> demands a query of that
  dimension and \<open>k > 0\<close>, and returns exactly \<open>k\<close> pairs of distance and label, nearest
  first, where the distance is the squared Euclidean distance and the label the ordinal of the
  stored vector. When fewer than \<open>k\<close> vectors are stored, the remaining slots carry the label
  \<open>-1\<close> and the largest finite single-precision number as distance. Distances are real
  numbers here; the rounding of single-precision arithmetic is not modelled.
\<close>

record IndexFlatL2 =
  ix_dim :: nat
  ix_vectors :: "real list list"

definition ntotal :: "IndexFlatL2 \<Rightarrow> nat" where
  "ntotal ix = length (ix_vectors ix)"

definition l2_sqr :: "real list \<Rightarrow> real list \<Rightarrow> real" where
  "l2_sqr x y = sum_list (map (\<lambda>(a, b). (a - b) ^ 2) (zip x y))"

definition FLT_MAX :: real where
  "FLT_MAX = 340282346638528859811704183484516925440"

definition index_search :: "IndexFlatL2 \<Rightarrow> real list \<Rightarrow> int \<Rightarrow> error + (real \<times> int) list" where
  "index_search ix x k =
     (if length x \<noteq> ix_dim ix then Inl AssertionError
      else if k \<le> 0 then Inl RuntimeError
      else
        (let ranked = sort_key fst (zip (map (l2_sqr x) (ix_vectors ix)) (map int [0..<ntotal ix]))
         in Inr (take (nat k) ranked @ replicate (nat k - length ranked) (FLT_MAX, - 1))))"

subsection \<open>FAISSRetriever\<close>

text \<open>
  The chunk metadata and the search results are Python dictionaries with string keys.
\<close>

datatype pyval = PyStr pystr | PyInt int | PyFloat real

type_synonym chunk_dict = "string \<rightharpoonup> pyval"

record retriever =
  country :: pystr
  index :: "IndexFlatL2 option"
  chunks :: "chunk_dict list"

text \<open>
  The collaborators of \<open>build_index\<close> that live outside the retriever: the JSON file behind
  \<open>load_documents\<close>, the embedding model and the file system behind \<open>save_index\<close>. Each may
  raise.
\<close>

record build_env =
  load_documents :: "pystr \<Rightarrow> error + document list"
  encode_texts :: "pystr list \<Rightarrow> error + real list list"
  save_index :: "retriever \<Rightarrow> error option"

text \<open>The dictionary \<open>build_index\<close> stores for one chunk.\<close>

definition chunk_dict_of :: "DocumentChunk \<Rightarrow> chunk_dict" where
  "chunk_dict_of chunk =
     [''text'' \<mapsto> PyStr (c_text chunk),
      ''title'' \<mapsto> PyStr (c_title chunk),
      ''section'' \<mapsto> PyStr (c_section chunk),
      ''source_url'' \<mapsto> PyStr (c_source_url chunk),
      ''country'' \<mapsto> PyStr (c_country chunk),
      ''category'' \<mapsto> PyStr (c_category chunk),
      ''chunk_id'' \<mapsto> PyInt (int (c_chunk_id chunk))]"

text \<open>
  \<open>build_index\<close> returns the retriever as the call leaves it, together with the exception
  that ended the call, if any. \<open>self.chunks\<close> is assigned as soon as the documents are
  chunked, \<open>self.index\<close> once the embeddings exist. \<open>embeddings.shape[1]\<close> raises on an
  array without rows.
\<close>

definition build_index :: "build_env \<Rightarrow> retriever \<Rightarrow> retriever \<times> error option" where
  "build_index env self =
     (case load_documents env (country self) of
        Inl e \<Rightarrow> (self, Some e)
      | Inr documents \<Rightarrow>
     (case process_documents 500 documents of
        Inl e \<Rightarrow> (self, Some e)
      | Inr chunk_objects \<Rightarrow>
     (let self1 = self\<lparr>chunks := map chunk_dict_of chunk_objects\<rparr>;
          texts = map c_text chunk_objects
      in case encode_texts env texts of
        Inl e \<Rightarrow> (self1, Some e)
      | Inr embeddings \<Rightarrow>
     (case embeddings of
        [] \<Rightarrow> (self1, Some IndexError)
      | v # _ \<Rightarrow>
     (let self2 = self1\<lparr>index := Some \<lparr>ix_dim = length v, ix_vectors = embeddings\<rparr>\<rparr>
      in (self2, save_index env self2))))))"

subsection \<open>search\<close>

text \<open>
  \<open>self.chunks[idx]\<close>: an index from \<open>-len\<close> up to \<open>-1\<close> reads from the back of the list,
  one outside \<open>-len .. len - 1\<close> raises.
\<close>

definition py_index :: "'a list \<Rightarrow> int \<Rightarrow> error + 'a" where
  "py_index xs i =
     (if 0 \<le> i \<and> i < int (length xs) then Inr (xs ! nat i)
      else if i < 0 \<and> - int (length xs) \<le> i then Inr (xs ! nat (int (length xs) + i))
      else Inl IndexError)"

text \<open>The loop \<open>for distance, idx in zip(distances[0], indices[0])\<close>.\<close>

fun collect_results :: "chunk_dict list \<Rightarrow> (real \<times> int) list \<Rightarrow> error + chunk_dict list" where
  "collect_results cs [] = Inr []"
| "collect_results cs ((distance, idx) # found) =
     (if idx < int (length cs)
      then (case py_index cs idx of
              Inl e \<Rightarrow> Inl e
            | Inr chunk \<Rightarrow>
                (case collect_results cs found of
                   Inl e \<Rightarrow> Inl e
                 | Inr results \<Rightarrow>
                     Inr (chunk(''similarity_score'' \<mapsto> PyFloat (1 / (1 + distance))) # results)))
      else collect_results cs found)"

text \<open>
  The wait loop. Another thread may set \<open>self.index\<close> while \<open>search\<close> waits, so \<open>search\<close>
  takes the retriever as a function of the number of wait steps that have passed: \<open>self n\<close>
  is the object as the searching thread reads it after \<open>n\<close> waits. \<open>waited\<close> is a rational
  number; the double-precision sum of the source passes \<open>max_wait\<close> after the same 25 steps.
\<close>

definition wait_step :: rat where
  "wait_step = 1 / 5"

definition max_wait :: rat where
  "max_wait = 5"

function wait_loop :: "(nat \<Rightarrow> retriever) \<Rightarrow> nat \<Rightarrow> rat \<Rightarrow> nat" where
  "wait_loop self n waited =
     (if index (self n) = None \<and> waited < max_wait
      then wait_loop self (Suc n) (waited + wait_step)
      else n)"
  by pat_completeness auto
termination
proof (relation "measure (\<lambda>(self, n, waited). nat \<lceil>(max_wait - waited) * 5\<rceil>)")
  show "wf (measure (\<lambda>(self, n, waited). nat \<lceil>(max_wait - waited) * 5\<rceil>))"
    by simp
next
  fix self :: "nat \<Rightarrow> retriever" and n :: nat and waited :: rat
  assume "index (self n) = None \<and> waited < max_wait"
  then have pos: "0 < (max_wait - waited) * 5"
    by simp
  have "(max_wait - (waited + wait_step)) * 5 = (max_wait - waited) * 5 - 1"
    by (simp add: wait_step_def algebra_simps)
  then have "\<lceil>(max_wait - (waited + wait_step)) * 5\<rceil> = \<lceil>(max_wait - waited) * 5\<rceil> - 1"
    by (simp only: ceiling_diff_one)
  moreover from pos have "0 < \<lceil>(max_wait - waited) * 5\<rceil>"
    by simp
  ultimately show "((self, Suc n, waited + wait_step), (self, n, waited))
      \<in> measure (\<lambda>(self, n, waited). nat \<lceil>(max_wait - waited) * 5\<rceil>)"
    by simp
qed

declare wait_loop.simps [simp del]

definition not_loaded_message :: "pystr \<Rightarrow> pystr" where
  "not_loaded_message c =
     ord_str ''Index not loaded for '' @ c @
     ord_str ''. Try again later or trigger build_index().''"

definition search :: "(pystr \<Rightarrow> real list) \<Rightarrow> (nat \<Rightarrow> retriever) \<Rightarrow> pystr \<Rightarrow> int
    \<Rightarrow> error + chunk_dict list" where
  "search encode_single self query top_k =
     (let n = (if index (self 0) = None then wait_loop self 0 0 else 0)
      in case index (self n) of
           None \<Rightarrow> Inl (Exception (not_loaded_message (country (self n))))
         | Some ix \<Rightarrow>
             (case index_search ix (encode_single query) top_k of
                Inl e \<Rightarrow> Inl e
              | Inr found \<Rightarrow> collect_results (chunks (self n)) found))"


section \<open>Example inputs\<close>

text \<open>A retriever for \<open>india\<close> with no index on disk and no load in flight.\<close>

definition india_unloaded :: "nat \<Rightarrow> retriever" where
  "india_unloaded n = \<lparr>country = ord_str ''india'', index = None, chunks = []\<rparr>"

definition no_embedding :: "pystr \<Rightarrow> real list" where
  "no_embedding q = []"

text \<open>A retriever with a working index of two chunks, and documents to rebuild it from.\<close>

definition old_chunk :: chunk_dict where
  "old_chunk = chunk_dict_of
     \<lparr>c_text = ord_str ''Old law.'', c_title = ord_str ''Act'', c_section = [],
      c_source_url = [], c_country = ord_str ''india'', c_category = ord_str ''labor'',
      c_chunk_id = 0, c_total_chunks = 1\<rparr>"

definition working_retriever :: retriever where
  "working_retriever =
     \<lparr>country = ord_str ''india'',
      index = Some \<lparr>ix_dim = 1, ix_vectors = [[0], [1]]\<rparr>,
      chunks = [old_chunk, old_chunk]\<rparr>"

definition new_document :: document where
  "new_document =
     [''content'' \<mapsto> ord_str ''New law.'', ''title'' \<mapsto> ord_str ''Act'',
      ''country'' \<mapsto> ord_str ''india'', ''category'' \<mapsto> ord_str ''labor'']"

definition untitled_document :: document where
  "untitled_document =
     [''content'' \<mapsto> ord_str ''New law.'',
      ''country'' \<mapsto> ord_str ''india'', ''category'' \<mapsto> ord_str ''labor'']"

text \<open>Build environments: one whose embedding model raises, one whose document lacks a title.\<close>

definition embedding_fails :: build_env where
  "embedding_fails =
     \<lparr>load_documents = (\<lambda>c. Inr [new_document]),
      encode_texts = (\<lambda>texts. Inl ModelError),
      save_index = (\<lambda>self. None)\<rparr>"

definition chunking_fails :: build_env where
  "chunking_fails =
     \<lparr>load_documents = (\<lambda>c. Inr [untitled_document]),
      encode_texts = (\<lambda>texts. Inr (map (\<lambda>t. [0]) texts)),
      save_index = (\<lambda>self. None)\<rparr>"

text \<open>A loaded retriever with one vector and one chunk; an embedder that maps every query to the origin.\<close>

definition one_chunk_retriever :: "nat \<Rightarrow> retriever" where
  "one_chunk_retriever n =
     \<lparr>country = ord_str ''india'',
      index = Some \<lparr>ix_dim = 1, ix_vectors = [[0]]\<rparr>,
      chunks = [old_chunk]\<rparr>"

definition zero_embedding :: "pystr \<Rightarrow> real list" where
  "zero_embedding q = [0]"

section \<open>The chunker in the words of the specification\<close>

text \<open>
  Greedy packing as the specification describes it: sentences join the current chunk, one
  space apart, while \<open>currentLength + nextSentenceLength + 1 \<le> maxSize\<close>; otherwise the
  current chunk is closed and the sentence starts the next one. \<open>spec_split\<close> is the
  specification's \<open>split\<close>: the text itself when it fits, the packed sentences otherwise.
\<close>

fun greedy_pack :: "int \<Rightarrow> pystr \<Rightarrow> pystr list \<Rightarrow> pystr list" where
  "greedy_pack max_size current [] = [current]"
| "greedy_pack max_size current (s # ss) =
     (if int (length current) + int (length s) + 1 \<le> max_size
      then greedy_pack max_size (current @ [32] @ s) ss
      else current # greedy_pack max_size s ss)"

definition pack_sentences :: "int \<Rightarrow> pystr list \<Rightarrow> pystr list" where
  "pack_sentences max_size sentences =
     (case sentences of [] \<Rightarrow> [] | s # ss \<Rightarrow> greedy_pack max_size s ss)"

definition spec_split :: "int \<Rightarrow> pystr \<Rightarrow> pystr list" where
  "spec_split max_size t =
     (if int (length t) \<le> max_size then [t] else pack_sentences max_size (re_split t))"


text \<open>
  The fields \<open>process_documents\<close> reads with \<open>doc[...]\<close>, in the order it reads them, the
  first of them a document lacks, and the chunks a document contributes to the result.
\<close>

definition required_fields :: "string list" where
  "required_fields = [''content'', ''title'', ''country'', ''category'']"

definition first_missing :: "document \<Rightarrow> string option" where
  "first_missing doc = find (\<lambda>f. doc f = None) required_fields"

definition chunks_of_doc :: "int \<Rightarrow> document \<Rightarrow> DocumentChunk list" where
  "chunks_of_doc chunk_size doc =
     (case doc_chunks chunk_size doc of Inl e \<Rightarrow> [] | Inr new \<Rightarrow> new)"

text \<open>A document whose content is one space, and one whose content makes two chunks of size 12.\<close>

definition blank_document :: document where
  "blank_document =
     [''content'' \<mapsto> ord_str '' '', ''title'' \<mapsto> ord_str ''Act'',
      ''country'' \<mapsto> ord_str ''india'', ''category'' \<mapsto> ord_str ''labor'']"

definition two_chunk_document :: document where
  "two_chunk_document =
     [''content'' \<mapsto> ord_str ''Work visa.  Study visa.'', ''title'' \<mapsto> ord_str ''Act'',
      ''section'' \<mapsto> ord_str ''5'',
      ''country'' \<mapsto> ord_str ''india'', ''category'' \<mapsto> ord_str ''labor'']"

section \<open>Scores and distances\<close>

text \<open>
  The distance the specification speaks of, the Euclidean (L2) distance of two vectors, and
  the score \<open>search\<close> attaches to a stored vector: \<open>1 / (1 + distance)\<close> with the distance
  the index reports, which is the squared one.
\<close>

definition l2_distance :: "real list \<Rightarrow> real list \<Rightarrow> real" where
  "l2_distance x y = sqrt (l2_sqr x y)"

definition score :: "real list \<Rightarrow> real list \<Rightarrow> real" where
  "score q v = 1 / (1 + l2_sqr q v)"

text \<open>A retriever that no other thread writes to looks the same after every wait step.\<close>

definition unshared :: "retriever \<Rightarrow> nat \<Rightarrow> retriever" where
  "unshared self n = self"

text \<open>
  Loaded retrievers: one whose only vector lies at distance 2 from the origin, one with two
  vectors and two different chunks; a build environment in which every step succeeds, and
  the retriever it builds.
\<close>

definition far_retriever :: retriever where
  "far_retriever =
     \<lparr>country = ord_str ''india'',
      index = Some \<lparr>ix_dim = 1, ix_vectors = [[2]]\<rparr>,
      chunks = [old_chunk]\<rparr>"

definition other_chunk :: chunk_dict where
  "other_chunk = chunk_dict_of
     \<lparr>c_text = ord_str ''Other law.'', c_title = ord_str ''Code'', c_section = [],
      c_source_url = [], c_country = ord_str ''india'', c_category = ord_str ''civil'',
      c_chunk_id = 0, c_total_chunks = 1\<rparr>"

definition two_vector_retriever :: retriever where
  "two_vector_retriever =
     \<lparr>country = ord_str ''india'',
      index = Some \<lparr>ix_dim = 1, ix_vectors = [[3], [0]]\<rparr>,
      chunks = [old_chunk, other_chunk]\<rparr>"

definition build_succeeds :: build_env where
  "build_succeeds =
     \<lparr>load_documents = (\<lambda>c. Inr [new_document]),
      encode_texts = (\<lambda>texts. Inr (map (\<lambda>t. [0]) texts)),
      save_index = (\<lambda>self. None)\<rparr>"

definition new_chunk :: chunk_dict where
  "new_chunk = chunk_dict_of
     \<lparr>c_text = ord_str ''New law.'', c_title = ord_str ''Act'', c_section = [],
      c_source_url = [], c_country = ord_str ''india'', c_category = ord_str ''labor'',
      c_chunk_id = 0, c_total_chunks = 1\<rparr>"

definition rebuilt_retriever :: retriever where
  "rebuilt_retriever =
     \<lparr>country = ord_str ''india'',
      index = Some \<lparr>ix_dim = 1, ix_vectors = [[0]]\<rparr>,
      chunks = [new_chunk]\<rparr>"

section \<open>Properties of clean\_text\<close>

text \<open>
  C9. \<open>clean\<close> is idempotent: \<open>clean(clean(x)) = clean(x)\<close> for every string \<open>x\<close>.
  The code breaks this at \<open>"a - b"\<close> (an en dash, U+2013, between two spaces): the
  whitespace runs are collapsed before the non-printable character between them is removed,
  so the first pass leaves two adjacent spaces, which the second pass collapses.
\<close>

theorem clean_text_not_idempotent:
  "clean_text [97, 32, 8211, 32, 98] = ord_str ''a  b'' \<and>
   clean_text (clean_text [97, 32, 8211, 32, 98]) = ord_str ''a b'' \<and>
   clean_text (clean_text [97, 32, 8211, 32, 98]) \<noteq> clean_text [97, 32, 8211, 32, 98]"
  by (simp add: clean_text_def py_strip_def printable_def py_isspace_def ord_str_def)


section \<open>Properties of search: the wait for the index\<close>

lemma wait_loop_le:
  "wait_loop self n waited \<le> n + nat \<lceil>(max_wait - waited) * 5\<rceil>"
proof (induction self n waited rule: wait_loop.induct)
  case (1 self n waited)
  define c where "c = \<lceil>(max_wait - waited) * 5\<rceil>"
  show ?case
  proof (cases "index (self n) = None \<and> waited < max_wait")
    case True
    then have pos: "0 < c"
      by (simp add: c_def)
    have "(max_wait - (waited + wait_step)) * 5 = (max_wait - waited) * 5 - 1"
      by (simp add: wait_step_def algebra_simps)
    then have c': "\<lceil>(max_wait - (waited + wait_step)) * 5\<rceil> = c - 1"
      by (simp only: ceiling_diff_one c_def)
    from pos have "Suc n + nat (c - 1) = n + nat c"
      by arith
    moreover have "wait_loop self n waited = wait_loop self (Suc n) (waited + wait_step)"
      using True by (subst wait_loop.simps) simp
    ultimately show ?thesis
      using "1.IH"[OF True] by (simp only: c' c_def [symmetric])
  next
    case False
    then have "wait_loop self n waited = n"
      by (subst wait_loop.simps) auto
    then show ?thesis
      by simp
  qed
qed

lemma wait_loop_stop:
  "index (self (wait_loop self n waited)) = None \<Longrightarrow>
   max_wait \<le> waited + of_nat (wait_loop self n waited - n) * wait_step \<and>
   n \<le> wait_loop self n waited"
proof (induction self n waited rule: wait_loop.induct)
  case (1 self n waited)
  show ?case
  proof (cases "index (self n) = None \<and> waited < max_wait")
    case True
    define w where "w = wait_loop self (Suc n) (waited + wait_step)"
    from True have eq: "wait_loop self n waited = w"
      unfolding w_def by (subst wait_loop.simps) simp
    from "1.prems" eq have pre: "index (self (wait_loop self (Suc n) (waited + wait_step))) = None"
      by (simp only: w_def)
    note both = "1.IH"[OF True pre, folded w_def]
    note ih = both[THEN conjunct1] and le = both[THEN conjunct2]
    from le obtain k where k: "w = Suc n + k"
      using le_Suc_ex by blast
    from ih have "max_wait \<le> waited + of_nat (w - n) * wait_step"
      unfolding k by (simp add: algebra_simps)
    with le show ?thesis
      unfolding eq by simp
  next
    case False
    then have eq: "wait_loop self n waited = n"
      by (subst wait_loop.simps) auto
    with False "1.prems" show ?thesis
      by auto
  qed
qed

text \<open>
  C3. When the index is absent at the call, \<open>search\<close> polls at most 25 times, 0.2 seconds
  apart, that is at most 5 seconds of waiting; if the index is still absent after the loop,
  all 25 waits have passed and \<open>search\<close> raises an exception whose message names the country,
  instead of returning a result.
\<close>

theorem search_index_not_ready:
  assumes "index (self 0) = None"
  shows "wait_loop self 0 0 \<le> 25 \<and>
         of_nat (wait_loop self 0 0) * wait_step \<le> max_wait \<and>
         (index (self (wait_loop self 0 0)) = None \<longrightarrow>
            wait_loop self 0 0 = 25 \<and>
            search encode_single self query top_k =
              Inl (Exception (ord_str ''Index not loaded for '' @ country (self 25) @
                              ord_str ''. Try again later or trigger build_index().'')))"
proof -
  have le: "wait_loop self 0 0 \<le> 25"
    using wait_loop_le[of self 0 0] by (simp add: max_wait_def)
  then have "(of_nat (wait_loop self 0 0) :: rat) \<le> 25"
    by simp
  then have t: "of_nat (wait_loop self 0 0) * wait_step \<le> max_wait"
    by (simp add: wait_step_def max_wait_def)
  {
    assume none: "index (self (wait_loop self 0 0)) = None"
    from none wait_loop_stop[of self 0 0] have "(25::rat) \<le> of_nat (wait_loop self 0 0)"
      by (simp add: wait_step_def max_wait_def)
    then have "25 \<le> wait_loop self 0 0"
      by (metis of_nat_le_iff of_nat_numeral)
    with le have n: "wait_loop self 0 0 = 25"
      by simp
    with none assms have "search encode_single self query top_k =
        Inl (Exception (not_loaded_message (country (self 25))))"
      by (simp add: search_def)
    with n have "wait_loop self 0 0 = 25 \<and> search encode_single self query top_k =
        Inl (Exception (ord_str ''Index not loaded for '' @ country (self 25) @
                              ord_str ''. Try again later or trigger build_index().''))"
      by (simp add: not_loaded_message_def)
  }
  with le t show ?thesis
    by blast
qed

theorem search_index_not_ready_witness:
  "index (india_unloaded 0) = None \<and>
   wait_loop india_unloaded 0 0 = 25 \<and>
   search no_embedding india_unloaded (ord_str ''visa'') 3 =
     Inl (Exception (ord_str ''Index not loaded for india. Try again later or trigger build_index().''))"
  using search_index_not_ready[of india_unloaded no_embedding "ord_str ''visa''" 3]
  by (simp add: india_unloaded_def ord_str_def)


section \<open>Evaluating the text functions\<close>

lemmas text_eval = clean_text_def py_strip_def printable_def py_isspace_def ord_str_def
  split_into_chunks_def re_split_def sentence_end_def

lemma process_new_document:
  "process_documents 500 [new_document] =
     Inr [\<lparr>c_text = ord_str ''New law.'', c_title = ord_str ''Act'', c_section = [],
           c_source_url = [], c_country = ord_str ''india'', c_category = ord_str ''labor'',
           c_chunk_id = 0, c_total_chunks = 1\<rparr>]"
  by (simp add: process_documents_def doc_chunks_def make_chunk_def doc_get_def
      new_document_def text_eval)

lemma process_untitled_document:
  "process_documents 500 [untitled_document] = Inl (KeyError ''title'')"
  by (simp add: process_documents_def doc_chunks_def make_chunk_def doc_get_def
      untitled_document_def text_eval)

section \<open>Properties of build\_index\<close>

text \<open>
  C2, as stated: whenever \<open>build_index\<close> fails, index and chunks are what they were before.
  It fails on the code when the embedding model raises: \<open>self.chunks\<close> has then been
  overwritten with the new chunk dictionaries, while \<open>self.index\<close> is still the old index.
\<close>

theorem build_index_failure_corrupts_state:
  "snd (build_index embedding_fails working_retriever) = Some ModelError \<and>
   index (fst (build_index embedding_fails working_retriever)) = index working_retriever \<and>
   length (chunks (fst (build_index embedding_fails working_retriever))) = 1 \<and>
   length (chunks working_retriever) = 2 \<and>
   fst (build_index embedding_fails working_retriever) \<noteq> working_retriever"
proof -
  have b: "build_index embedding_fails working_retriever =
      (working_retriever\<lparr>chunks := [chunk_dict_of
         \<lparr>c_text = ord_str ''New law.'', c_title = ord_str ''Act'', c_section = [],
           c_source_url = [], c_country = ord_str ''india'', c_category = ord_str ''labor'',
           c_chunk_id = 0, c_total_chunks = 1\<rparr>]\<rparr>, Some ModelError)"
    by (simp add: build_index_def embedding_fails_def process_new_document)
  have l: "length (chunks working_retriever) = 2"
    by (simp add: working_retriever_def)
  have "fst (build_index embedding_fails working_retriever) \<noteq> working_retriever"
  proof
    assume "fst (build_index embedding_fails working_retriever) = working_retriever"
    then have "length (chunks (fst (build_index embedding_fails working_retriever))) = 2"
      using l by simp
    then show False
      by (simp add: b)
  qed
  with l show ?thesis
    by (simp add: b)
qed

text \<open>
  C2, amended: when \<open>build_index\<close> fails while loading the documents or while chunking them,
  the retriever is exactly what it was before the call.
\<close>

theorem build_index_early_failure:
  assumes "load_documents env (country self) = Inl e \<or>
           (\<exists>documents. load_documents env (country self) = Inr documents \<and>
                         process_documents 500 documents = Inl e)"
  shows "build_index env self = (self, Some e)"
  using assms by (auto simp: build_index_def)

theorem build_index_early_failure_witness:
  "load_documents chunking_fails (country working_retriever) = Inr [untitled_document] \<and>
   process_documents 500 [untitled_document] = Inl (KeyError ''title'') \<and>
   build_index chunking_fails working_retriever = (working_retriever, Some (KeyError ''title''))"
proof -
  have l: "load_documents chunking_fails (country working_retriever) = Inr [untitled_document]"
    by (simp add: chunking_fails_def)
  with process_untitled_document
    build_index_early_failure[of chunking_fails working_retriever "KeyError ''title''"]
  show ?thesis
    by simp
qed

text \<open>
  What a later failure leaves behind: the new chunk list once the embedding model is reached,
  the new index as well once the embeddings exist.
\<close>

lemma build_index_late_failure:
  assumes "load_documents env (country self) = Inr documents"
    and "process_documents 500 documents = Inr chunk_objects"
  shows "encode_texts env (map c_text chunk_objects) = Inl e \<Longrightarrow>
           build_index env self = (self\<lparr>chunks := map chunk_dict_of chunk_objects\<rparr>, Some e)"
    and "encode_texts env (map c_text chunk_objects) = Inr (v # vs) \<Longrightarrow>
           build_index env self =
             (self\<lparr>chunks := map chunk_dict_of chunk_objects,
                    index := Some \<lparr>ix_dim = length v, ix_vectors = v # vs\<rparr>\<rparr>,
              save_index env (self\<lparr>chunks := map chunk_dict_of chunk_objects,
                    index := Some \<lparr>ix_dim = length v, ix_vectors = v # vs\<rparr>\<rparr>))"
  using assms by (simp_all add: build_index_def Let_def)

section \<open>Properties of search: the results\<close>

text \<open>
  C1. With \<open>top_k\<close> greater than the index size, \<open>search\<close> returns exactly \<open>size()\<close> results,
  never padded with duplicates. On an index of one vector and with \<open>top_k = 3\<close> the code
  returns three results: the index fills the two missing slots with label \<open>-1\<close>, the guard
  \<open>idx < len(self.chunks)\<close> lets \<open>-1\<close> pass, and \<open>self.chunks[-1]\<close> is the last chunk.
\<close>

theorem search_pads_beyond_index_size:
  "ntotal \<lparr>ix_dim = 1, ix_vectors = [[0]]\<rparr> = 1 \<and>
   search zero_embedding one_chunk_retriever (ord_str ''visa'') 3 =
     Inr [old_chunk(''similarity_score'' \<mapsto> PyFloat 1),
          old_chunk(''similarity_score'' \<mapsto> PyFloat (1 / (1 + FLT_MAX))),
          old_chunk(''similarity_score'' \<mapsto> PyFloat (1 / (1 + FLT_MAX)))]"
  by (simp add: search_def one_chunk_retriever_def zero_embedding_def index_search_def
      ntotal_def l2_sqr_def py_index_def numeral_3_eq_3)


section \<open>Properties of split\_into\_chunks\<close>

subsection \<open>Sentence pieces\<close>

lemma re_split_from_not_Nil: "re_split_from piece t \<noteq> []"
  by (induction piece t rule: re_split_from.induct) auto

lemma re_split_from_butlast:
  "p \<in> set (butlast (re_split_from piece t)) \<Longrightarrow> p \<noteq> []"
  by (induction piece t arbitrary: p rule: re_split_from.induct)
     (auto simp: re_split_from_not_Nil split: if_splits)

lemma re_split_from_hd:
  "piece \<noteq> [] \<or> t \<noteq> [] \<Longrightarrow> hd (re_split_from piece t) \<noteq> []"
  by (induction piece t rule: re_split_from.induct) auto

lemma sentence_end_not_space: "sentence_end c \<Longrightarrow> \<not> py_isspace c"
  by (auto simp: sentence_end_def py_isspace_def)

lemma last_dropWhile:
  "dropWhile P xs \<noteq> [] \<Longrightarrow> last (dropWhile P xs) = last xs"
  by (induction xs) (auto split: if_splits)

lemma dropWhile_last_not_Nil:
  "xs \<noteq> [] \<Longrightarrow> \<not> P (last xs) \<Longrightarrow> dropWhile P xs \<noteq> []"
  by (induction xs) (auto split: if_splits)

lemma re_split_from_nonspace:
  "t \<noteq> [] \<Longrightarrow> \<not> py_isspace (last t) \<Longrightarrow> p \<in> set (re_split_from piece t) \<Longrightarrow>
   p \<noteq> [] \<and> \<not> py_isspace (last p)"
proof (induction piece t arbitrary: p rule: re_split_from.induct)
  case (1 piece)
  then show ?case by simp
next
  case (2 piece c)
  then show ?case by simp
next
  case (3 piece c d cs)
  show ?case
  proof (cases "sentence_end c \<and> py_isspace d")
    case True
    with "3.prems" have cs: "cs \<noteq> []" "\<not> py_isspace (last cs)"
      by (auto split: if_splits)
    then have dw: "dropWhile py_isspace cs \<noteq> []"
      by (rule dropWhile_last_not_Nil)
    with cs have l: "\<not> py_isspace (last (dropWhile py_isspace cs))"
      by (simp add: last_dropWhile)
    from True "3.prems"(3) consider "p = piece @ [c]"
      | "p \<in> set (re_split_from [] (dropWhile py_isspace cs))"
      by auto
    then show ?thesis
    proof cases
      case 1
      with True show ?thesis
        by (simp add: sentence_end_not_space)
    next
      case 2
      from "3.IH"(1)[OF True dw l 2] show ?thesis .
    qed
  next
    case False
    with "3.prems" have "p \<in> set (re_split_from (piece @ [c]) (d # cs))"
      by auto
    moreover from "3.prems" have "\<not> py_isspace (last (d # cs))"
      by simp
    ultimately show ?thesis
      using "3.IH"(2)[OF False] by blast
  qed
qed

lemma re_split_from_hd_char:
  "piece \<noteq> [] \<or> t \<noteq> [] \<Longrightarrow> hd (hd (re_split_from piece t)) = hd (piece @ t)"
  by (induction piece t rule: re_split_from.induct) (auto simp: hd_append)

lemma re_split_from_tl_starts:
  "p \<in> set (tl (re_split_from piece t)) \<Longrightarrow> p \<noteq> [] \<Longrightarrow> \<not> py_isspace (hd p)"
proof (induction piece t arbitrary: p rule: re_split_from.induct)
  case (1 piece)
  then show ?case by simp
next
  case (2 piece c)
  then show ?case by simp
next
  case (3 piece c d cs)
  show ?case
  proof (cases "sentence_end c \<and> py_isspace d")
    case True
    with "3.prems" have mem: "p \<in> set (re_split_from [] (dropWhile py_isspace cs))"
      by simp
    obtain q qs where q: "re_split_from [] (dropWhile py_isspace cs) = q # qs"
      using re_split_from_not_Nil by (cases "re_split_from [] (dropWhile py_isspace cs)") auto
    from mem q consider "p = q" | "p \<in> set qs"
      by auto
    then show ?thesis
    proof cases
      case 1
      show ?thesis
      proof (cases "dropWhile py_isspace cs = []")
        case True
        with q 1 "3.prems"(2) show ?thesis by simp
      next
        case False
        then have "hd (hd (re_split_from [] (dropWhile py_isspace cs))) = hd (dropWhile py_isspace cs)"
          using re_split_from_hd_char[of "[]" "dropWhile py_isspace cs"] by simp
        with q 1 False show ?thesis
          by (simp add: hd_dropWhile)
      qed
    next
      case 2
      with q have "p \<in> set (tl (re_split_from [] (dropWhile py_isspace cs)))"
        by simp
      from "3.IH"(1)[OF True this "3.prems"(2)] show ?thesis .
    qed
  next
    case False
    with "3.prems" have "p \<in> set (tl (re_split_from (piece @ [c]) (d # cs)))"
      by simp
    from "3.IH"(2)[OF False this "3.prems"(2)] show ?thesis .
  qed
qed


subsection \<open>Stripping\<close>

lemma py_strip_not_Nil:
  assumes "\<exists>c\<in>set p. \<not> py_isspace c"
  shows "py_strip p \<noteq> []"
proof -
  from assms have ne: "dropWhile py_isspace p \<noteq> []"
    by (simp add: dropWhile_eq_Nil_conv)
  then have "\<not> py_isspace (hd (dropWhile py_isspace p))"
    by (rule hd_dropWhile)
  with ne have "\<exists>c\<in>set (rev (dropWhile py_isspace p)). \<not> py_isspace c"
    by (metis hd_in_set set_rev)
  then show ?thesis
    by (simp add: py_strip_def dropWhile_eq_Nil_conv)
qed

lemma py_strip_id:
  assumes "p \<noteq> []" and "\<not> py_isspace (hd p)" and "\<not> py_isspace (last p)"
  shows "py_strip p = p"
proof -
  from assms have "dropWhile py_isspace p = p"
    by (cases p) auto
  moreover from assms have "dropWhile py_isspace (rev p) = rev p"
    by (cases "rev p") (auto simp: hd_rev[symmetric] simp del: hd_rev)
  ultimately show ?thesis
    by (simp add: py_strip_def)
qed

subsection \<open>The packing loop\<close>

lemma fold_pack_greedy:
  assumes "cur \<noteq> []" and "\<forall>s\<in>set (butlast ss). s \<noteq> []"
  shows "last_chunk (fold (pack_step n) ss (acc, cur)) =
         acc @ map py_strip (filter (\<lambda>c. c \<noteq> []) (greedy_pack n cur ss))"
  using assms
proof (induction ss arbitrary: acc cur)
  case Nil
  then show ?case by simp
next
  case (Cons s ss)
  show ?case
  proof (cases "int (length cur) + int (length s) + 1 \<le> n")
    case True
    from Cons.prems have "\<forall>s\<in>set (butlast ss). s \<noteq> []"
      by (auto split: if_splits)
    from Cons.IH[OF _ this, of "cur @ [32] @ s" acc] True Cons.prems(1)
    show ?thesis by simp
  next
    case False
    show ?thesis
    proof (cases "ss = []")
      case True
      with False Cons.prems(1) show ?thesis by simp
    next
      case ne: False
      with Cons.prems have s: "s \<noteq> []" and rest: "\<forall>s\<in>set (butlast ss). s \<noteq> []"
        by auto
      from Cons.IH[OF s rest, of "acc @ [py_strip cur]"] False Cons.prems(1)
      show ?thesis by simp
    qed
  qed
qed

lemma split_into_chunks_packed:
  "split_into_chunks n t =
     (if int (length t) \<le> n then [t]
      else map py_strip (filter (\<lambda>c. c \<noteq> []) (pack_sentences n (re_split t))))"
proof (cases "int (length t) \<le> n")
  case True
  then show ?thesis by (simp add: split_into_chunks_def)
next
  case False
  obtain s ss where split: "re_split_from [] t = s # ss"
    using re_split_from_not_Nil by (cases "re_split_from [] t") auto
  have first: "pack_step n s ([], []) = ([], s)"
    by simp
  have all: "\<forall>p\<in>set (butlast (s # ss)). p \<noteq> []"
    using re_split_from_butlast[of _ "[]" t] split by metis
  show ?thesis
  proof (cases "s = []")
    case True
    with all have "ss = []"
      by (cases ss) auto
    with True False split show ?thesis
      by (simp add: split_into_chunks_def re_split_def pack_sentences_def)
  next
    case ne: False
    from all have "\<forall>p\<in>set (butlast ss). p \<noteq> []"
      by (auto split: if_splits)
    from fold_pack_greedy[OF ne this, of n "[]"] False split show ?thesis
      by (simp add: split_into_chunks_def re_split_def pack_sentences_def)
  qed
qed

lemma greedy_pack_hd: "\<exists>p ps. greedy_pack n cur ss = (cur @ p) # ps"
proof (induction ss arbitrary: cur)
  case Nil
  then show ?case by simp
next
  case (Cons s ss)
  show ?case
  proof (cases "int (length cur) + int (length s) + 1 \<le> n")
    case True
    from Cons.IH[of "cur @ [32] @ s"] obtain p ps
      where "greedy_pack n (cur @ [32] @ s) ss = ((cur @ [32] @ s) @ p) # ps"
      by blast
    with True have "greedy_pack n cur (s # ss) = (cur @ ([32] @ s @ p)) # ps"
      by simp
    then show ?thesis by blast
  next
    case False
    then have "greedy_pack n cur (s # ss) = (cur @ []) # greedy_pack n s ss"
      by simp
    then show ?thesis by blast
  qed
qed

lemma split_into_chunks_not_Nil:
  assumes "0 \<le> n"
  shows "split_into_chunks n t \<noteq> []"
proof (cases "int (length t) \<le> n")
  case True
  then show ?thesis by (simp add: split_into_chunks_def)
next
  case False
  with assms have t: "t \<noteq> []"
    by auto
  obtain s ss where split: "re_split_from [] t = s # ss"
    using re_split_from_not_Nil by (cases "re_split_from [] t") auto
  with re_split_from_hd[of "[]" t] t have s: "s \<noteq> []"
    by simp
  obtain p ps where "greedy_pack n s ss = (s @ p) # ps"
    using greedy_pack_hd by blast
  with s split False show ?thesis
    by (simp add: split_into_chunks_packed re_split_def pack_sentences_def)
qed

lemma greedy_pack_nonspace:
  assumes "\<exists>c\<in>set cur. \<not> py_isspace c"
    and "\<forall>s\<in>set ss. \<exists>c\<in>set s. \<not> py_isspace c"
    and "p \<in> set (greedy_pack n cur ss)"
  shows "\<exists>c\<in>set p. \<not> py_isspace c"
  using assms
proof (induction ss arbitrary: cur)
  case Nil
  then show ?case by simp
next
  case (Cons s ss)
  show ?case
  proof (cases "int (length cur) + int (length s) + 1 \<le> n")
    case True
    with Cons.prems(3) have "p \<in> set (greedy_pack n (cur @ [32] @ s) ss)"
      by simp
    moreover from Cons.prems(1) have "\<exists>c\<in>set (cur @ [32] @ s). \<not> py_isspace c"
      by auto
    moreover from Cons.prems(2) have "\<forall>s\<in>set ss. \<exists>c\<in>set s. \<not> py_isspace c"
      by simp
    ultimately show ?thesis
      by (rule Cons.IH[rotated 2])
  next
    case False
    with Cons.prems(3) consider "p = cur" | "p \<in> set (greedy_pack n s ss)"
      by auto
    then show ?thesis
    proof cases
      case 1
      with Cons.prems(1) show ?thesis by simp
    next
      case 2
      from Cons.prems(2) have "\<exists>c\<in>set s. \<not> py_isspace c"
        and "\<forall>s\<in>set ss. \<exists>c\<in>set s. \<not> py_isspace c"
        by simp_all
      from Cons.IH[OF this 2] show ?thesis .
    qed
  qed
qed

lemma greedy_pack_ends:
  assumes "cur \<noteq> [] \<and> \<not> py_isspace (hd cur) \<and> \<not> py_isspace (last cur)"
    and "\<forall>s\<in>set ss. s \<noteq> [] \<and> \<not> py_isspace (hd s) \<and> \<not> py_isspace (last s)"
    and "p \<in> set (greedy_pack n cur ss)"
  shows "p \<noteq> [] \<and> \<not> py_isspace (hd p) \<and> \<not> py_isspace (last p)"
  using assms
proof (induction ss arbitrary: cur)
  case Nil
  then show ?case by simp
next
  case (Cons s ss)
  from Cons.prems(2) have s: "s \<noteq> [] \<and> \<not> py_isspace (hd s) \<and> \<not> py_isspace (last s)"
    and rest: "\<forall>s\<in>set ss. s \<noteq> [] \<and> \<not> py_isspace (hd s) \<and> \<not> py_isspace (last s)"
    by simp_all
  show ?case
  proof (cases "int (length cur) + int (length s) + 1 \<le> n")
    case True
    with Cons.prems(3) have mem: "p \<in> set (greedy_pack n (cur @ [32] @ s) ss)"
      by simp
    from Cons.prems(1) s
    have "cur @ [32] @ s \<noteq> [] \<and> \<not> py_isspace (hd (cur @ [32] @ s)) \<and>
          \<not> py_isspace (last (cur @ [32] @ s))"
      by (simp add: hd_append)
    from Cons.IH[OF this rest mem] show ?thesis .
  next
    case False
    with Cons.prems(3) consider "p = cur" | "p \<in> set (greedy_pack n s ss)"
      by auto
    then show ?thesis
    proof cases
      case 1
      with Cons.prems(1) show ?thesis by simp
    next
      case 2
      from Cons.IH[OF s rest 2] show ?thesis .
    qed
  qed
qed

lemma greedy_pack_oversized_current:
  "n < int (length cur) \<Longrightarrow> cur \<in> set (greedy_pack n cur ss)"
  by (cases ss) auto

lemma greedy_pack_oversized:
  "s \<in> set ss \<Longrightarrow> n < int (length s) \<Longrightarrow> s \<in> set (greedy_pack n cur ss)"
proof (induction ss arbitrary: cur)
  case Nil
  then show ?case by simp
next
  case (Cons a ss)
  show ?case
  proof (cases "s = a")
    case True
    with Cons.prems(2) have "\<not> int (length cur) + int (length a) + 1 \<le> n"
      by simp
    with True Cons.prems(2) show ?thesis
      by (simp add: greedy_pack_oversized_current)
  next
    case False
    with Cons.prems have "s \<in> set ss"
      by simp
    from Cons.IH[OF this Cons.prems(2)] show ?thesis
      by simp
  qed
qed

lemma pack_sentences_oversized:
  "s \<in> set ss \<Longrightarrow> n < int (length s) \<Longrightarrow> s \<in> set (pack_sentences n ss)"
  by (cases ss) (auto simp: pack_sentences_def greedy_pack_oversized greedy_pack_oversized_current)

lemma split_into_chunks_nonempty_chunks:
  assumes "t \<noteq> []" and "\<not> py_isspace (last t)" and "c \<in> set (split_into_chunks n t)"
  shows "c \<noteq> []"
proof (cases "int (length t) \<le> n")
  case True
  with assms show ?thesis by (simp add: split_into_chunks_def)
next
  case False
  obtain s ss where split: "re_split_from [] t = s # ss"
    using re_split_from_not_Nil by (cases "re_split_from [] t") auto
  have pieces: "\<forall>p\<in>set (s # ss). \<exists>c\<in>set p. \<not> py_isspace c"
  proof
    fix p assume "p \<in> set (s # ss)"
    with split re_split_from_nonspace[OF assms(1,2), of p "[]"]
    have "p \<noteq> [] \<and> \<not> py_isspace (last p)"
      by simp
    then show "\<exists>c\<in>set p. \<not> py_isspace c"
      using last_in_set by blast
  qed
  from assms(3) False split obtain p where p: "p \<in> set (greedy_pack n s ss)" and c: "c = py_strip p"
    by (auto simp: split_into_chunks_packed re_split_def pack_sentences_def)
  from pieces have "\<exists>c\<in>set s. \<not> py_isspace c" and "\<forall>q\<in>set ss. \<exists>c\<in>set q. \<not> py_isspace c"
    by simp_all
  from greedy_pack_nonspace[OF this p] c show ?thesis
    by (simp add: py_strip_not_Nil)
qed

lemma split_into_chunks_spec_split:
  assumes "t \<noteq> []" and "\<not> py_isspace (hd t)" and "\<not> py_isspace (last t)"
  shows "split_into_chunks n t = spec_split n t"
proof (cases "int (length t) \<le> n")
  case True
  then show ?thesis by (simp add: split_into_chunks_def spec_split_def)
next
  case False
  obtain s ss where split: "re_split_from [] t = s # ss"
    using re_split_from_not_Nil by (cases "re_split_from [] t") auto
  have ends: "\<forall>p\<in>set (s # ss). p \<noteq> [] \<and> \<not> py_isspace (hd p) \<and> \<not> py_isspace (last p)"
  proof
    fix p assume mem: "p \<in> set (s # ss)"
    with split re_split_from_nonspace[OF assms(1,3), of p "[]"]
    have l: "p \<noteq> [] \<and> \<not> py_isspace (last p)"
      by simp
    have "\<not> py_isspace (hd p)"
    proof (cases "p = s")
      case True
      with split re_split_from_hd_char[of "[]" t] assms show ?thesis
        by simp
    next
      case False
      with mem split have "p \<in> set (tl (re_split_from [] t))"
        by simp
      with l show ?thesis
        using re_split_from_tl_starts by blast
    qed
    with l show "p \<noteq> [] \<and> \<not> py_isspace (hd p) \<and> \<not> py_isspace (last p)"
      by simp
  qed
  then have s: "s \<noteq> [] \<and> \<not> py_isspace (hd s) \<and> \<not> py_isspace (last s)"
    and rest: "\<forall>p\<in>set ss. p \<noteq> [] \<and> \<not> py_isspace (hd p) \<and> \<not> py_isspace (last p)"
    by simp_all
  have "\<forall>p\<in>set (greedy_pack n s ss). p \<noteq> [] \<and> py_strip p = p"
    using greedy_pack_ends[OF s rest] py_strip_id by blast
  then have "map py_strip (filter (\<lambda>c. c \<noteq> []) (greedy_pack n s ss)) = greedy_pack n s ss"
    by (simp add: map_idI filter_id_conv)
  with False split show ?thesis
    by (simp add: split_into_chunks_packed spec_split_def re_split_def pack_sentences_def)
qed


subsection \<open>The claim about split\<close>

text \<open>
  C4, as stated: beyond \<open>maxSize\<close>, the result is the greedy packing of the sentences, an
  oversized sentence being emitted as its own chunk. On a text with leading whitespace the
  code differs: every chunk is stripped when it is closed, so the oversized first sentence
  \<open>" a."\<close> comes out as \<open>"a."\<close>.
\<close>

theorem split_strips_chunks:
  "split_into_chunks 3 (ord_str '' a. b'') = [ord_str ''a.'', ord_str ''b''] \<and>
   spec_split 3 (ord_str '' a. b'') = [ord_str '' a.'', ord_str ''b''] \<and>
   split_into_chunks 3 (ord_str '' a. b'') \<noteq> spec_split 3 (ord_str '' a. b'')"
  by (simp add: text_eval spec_split_def pack_sentences_def)

text \<open>
  C4, amended. A text of at most \<open>maxSize\<close> characters is returned unchanged as the only
  chunk. A longer text is split into sentences, which are packed greedily under the condition
  \<open>currentLength + nextSentenceLength + 1 \<le> maxSize\<close>; every non-empty packed chunk is
  emitted with its leading and trailing whitespace stripped, and an empty one is not emitted.
  A sentence longer than \<open>maxSize\<close> is a packed chunk of its own. For a text that neither
  starts nor ends with whitespace the result is exactly the greedy packing of the
  specification.
\<close>

theorem split_into_chunks_greedy:
  "split_into_chunks n t =
     (if int (length t) \<le> n then [t]
      else map py_strip (filter (\<lambda>c. c \<noteq> []) (pack_sentences n (re_split t)))) \<and>
   (\<forall>s\<in>set (re_split t). n < int (length s) \<longrightarrow> s \<in> set (pack_sentences n (re_split t))) \<and>
   (t \<noteq> [] \<and> \<not> py_isspace (hd t) \<and> \<not> py_isspace (last t) \<longrightarrow>
      split_into_chunks n t = spec_split n t)"
  using split_into_chunks_packed[of n t] pack_sentences_oversized[of _ "re_split t" n]
    split_into_chunks_spec_split[of t n]
  by blast

theorem split_into_chunks_greedy_witness:
  "ord_str ''abcd.'' \<in> set (re_split (ord_str ''abcd. e'')) \<and>
   3 < int (length (ord_str ''abcd.'')) \<and>
   ord_str ''abcd.'' \<in> set (pack_sentences 3 (re_split (ord_str ''abcd. e''))) \<and>
   ord_str ''abcd. e'' \<noteq> [] \<and> \<not> py_isspace (hd (ord_str ''abcd. e'')) \<and>
   \<not> py_isspace (last (ord_str ''abcd. e'')) \<and>
   split_into_chunks 3 (ord_str ''abcd. e'') = spec_split 3 (ord_str ''abcd. e'') \<and>
   split_into_chunks 3 (ord_str ''abcd. e'') = [ord_str ''abcd.'', ord_str ''e'']"
  using split_into_chunks_greedy[of 3 "ord_str ''abcd. e''"]
  by (simp add: text_eval spec_split_def pack_sentences_def)

section \<open>Properties of process\_documents\<close>

lemma py_strip_last:
  assumes "py_strip y \<noteq> []"
  shows "\<not> py_isspace (last (py_strip y))"
proof -
  define zs where "zs = dropWhile py_isspace (rev (dropWhile py_isspace y))"
  from assms have ne: "zs \<noteq> []"
    by (simp add: py_strip_def zs_def)
  then have "\<not> py_isspace (hd zs)"
    unfolding zs_def by (rule hd_dropWhile)
  with ne show ?thesis
    by (simp add: py_strip_def zs_def [symmetric] last_rev)
qed

lemma clean_text_last: "clean_text x \<noteq> [] \<Longrightarrow> \<not> py_isspace (last (clean_text x))"
  unfolding clean_text_def by (rule py_strip_last)

lemma make_chunks_props:
  assumes "make_chunks doc k i ts = Inr g"
  shows "map c_text g = ts \<and> map c_chunk_id g = [i..<i + length ts] \<and>
         (\<forall>c\<in>set g. c_total_chunks c = k \<and> Some (c_title c) = doc ''title'' \<and>
            c_section c = doc_get doc ''section'' \<and> c_source_url c = doc_get doc ''source_url'' \<and>
            Some (c_country c) = doc ''country'' \<and> Some (c_category c) = doc ''category'')"
  using assms
proof (induction ts arbitrary: i g)
  case Nil
  then show ?case by simp
next
  case (Cons t ts)
  from Cons.prems obtain c rest where c: "make_chunk doc k i t = Inr c"
    and rest: "make_chunks doc k (Suc i) ts = Inr rest" and g: "g = c # rest"
    by (auto split: sum.splits)
  from c have "c_text c = t \<and> c_chunk_id c = i \<and> c_total_chunks c = k \<and>
      Some (c_title c) = doc ''title'' \<and> c_section c = doc_get doc ''section'' \<and>
      c_source_url c = doc_get doc ''source_url'' \<and>
      Some (c_country c) = doc ''country'' \<and> Some (c_category c) = doc ''category''"
    by (auto simp: make_chunk_def split: option.splits)
  with Cons.IH[OF rest] g show ?case
    by (simp add: upt_conv_Cons del: upt_Suc)
qed

lemma make_chunks_length: "make_chunks doc k i ts = Inr g \<Longrightarrow> length g = length ts"
  using make_chunks_props[of doc k i ts g] by (metis length_map)

lemma make_chunk_error:
  assumes "make_chunk doc k i t = Inl e" and "doc ''content'' = Some content"
  shows "\<exists>f. first_missing doc = Some f \<and> e = KeyError f"
  using assms
  by (auto simp: make_chunk_def first_missing_def required_fields_def split: option.splits)

lemma make_chunks_error:
  assumes "make_chunks doc k i ts = Inl e" and "doc ''content'' = Some content"
  shows "\<exists>f. first_missing doc = Some f \<and> e = KeyError f"
  using assms(1)
proof (induction ts arbitrary: i)
  case Nil
  then show ?case by simp
next
  case (Cons t ts)
  show ?case
  proof (cases "make_chunk doc k i t")
    case (Inl e')
    with Cons.prems have "e' = e"
      by simp
    with Inl have "make_chunk doc k i t = Inl e"
      by simp
    then show ?thesis
      using assms(2) by (rule make_chunk_error)
  next
    case (Inr c)
    with Cons.prems have "make_chunks doc k (Suc i) ts = Inl e"
      by (auto split: sum.splits)
    then show ?thesis
      by (rule Cons.IH)
  qed
qed

lemma doc_chunks_error:
  assumes "doc_chunks n doc = Inl e"
  shows "\<exists>f. first_missing doc = Some f \<and> e = KeyError f"
proof (cases "doc ''content''")
  case None
  with assms show ?thesis
    by (simp add: doc_chunks_def first_missing_def required_fields_def)
next
  case (Some content)
  with assms have "make_chunks doc (length (split_into_chunks n (clean_text content))) 0
      (split_into_chunks n (clean_text content)) = Inl e"
    by (simp add: doc_chunks_def Let_def)
  then show ?thesis
    using Some by (rule make_chunks_error)
qed

lemma doc_chunks_missing:
  assumes "0 \<le> n" and "first_missing doc = Some f"
  shows "doc_chunks n doc = Inl (KeyError f)"
proof (cases "doc ''content''")
  case None
  with assms show ?thesis
    by (simp add: doc_chunks_def first_missing_def required_fields_def)
next
  case (Some content)
  obtain t ts where ts: "split_into_chunks n (clean_text content) = t # ts"
    using split_into_chunks_not_Nil[OF assms(1)]
    by (cases "split_into_chunks n (clean_text content)") auto
  from Some assms(2) have "make_chunk doc (length (t # ts)) 0 t = Inl (KeyError f)"
    by (auto simp: make_chunk_def first_missing_def required_fields_def
        split: option.splits if_splits)
  with Some ts show ?thesis
    by (simp add: doc_chunks_def)
qed

lemma process_loop_missing:
  assumes "0 \<le> n" and "d \<in> set docs" and "first_missing d \<noteq> None"
  shows "\<exists>d' f. d' \<in> set docs \<and> first_missing d' = Some f \<and>
                process_loop n acc docs = Inl (KeyError f)"
  using assms(2)
proof (induction docs arbitrary: acc)
  case Nil
  then show ?case by simp
next
  case (Cons doc docs)
  show ?case
  proof (cases "doc_chunks n doc")
    case (Inl e)
    from doc_chunks_error[OF Inl] obtain f where f: "first_missing doc = Some f" "e = KeyError f"
      by blast
    with Inl have "process_loop n acc (doc # docs) = Inl (KeyError f)"
      by simp
    with f(1) show ?thesis
      by (intro exI[of _ doc] exI[of _ f]) simp
  next
    case (Inr new)
    have "first_missing doc = None"
    proof (cases "first_missing doc")
      case None
      then show ?thesis .
    next
      case (Some f)
      from doc_chunks_missing[OF assms(1) Some] Inr show ?thesis
        by simp
    qed
    with Cons.prems assms(3) have "d \<in> set docs"
      by auto
    from Cons.IH[OF this, of "acc @ new"] obtain d' f where d': "d' \<in> set docs"
      "first_missing d' = Some f" "process_loop n (acc @ new) docs = Inl (KeyError f)"
      by blast
    from d'(3) Inr have "process_loop n acc (doc # docs) = Inl (KeyError f)"
      by simp
    with d'(1,2) show ?thesis
      by (intro exI[of _ d'] exI[of _ f]) simp
  qed
qed

lemma process_loop_groups:
  assumes "process_loop n acc docs = Inr out"
  shows "out = acc @ concat (map (chunks_of_doc n) docs) \<and>
         (\<forall>doc\<in>set docs. doc_chunks n doc = Inr (chunks_of_doc n doc))"
  using assms
proof (induction docs arbitrary: acc)
  case Nil
  then show ?case by simp
next
  case (Cons doc docs)
  from Cons.prems obtain new where new: "doc_chunks n doc = Inr new"
    and rest: "process_loop n (acc @ new) docs = Inr out"
    by (auto split: sum.splits)
  from new have here: "chunks_of_doc n doc = new"
    by (simp add: chunks_of_doc_def)
  from Cons.IH[OF rest] have "out = acc @ new @ concat (map (chunks_of_doc n) docs)"
    and others: "\<forall>doc\<in>set docs. doc_chunks n doc = Inr (chunks_of_doc n doc)"
    by simp_all
  with new here show ?case
    by simp
qed

lemma doc_chunks_props:
  assumes "doc_chunks n doc = Inr g"
  shows "\<exists>content. doc ''content'' = Some content \<and>
           map c_text g = split_into_chunks n (clean_text content)"
    and "map c_chunk_id g = [0..<length g]"
    and "\<forall>c\<in>set g. c_total_chunks c = length g \<and> Some (c_title c) = doc ''title'' \<and>
            c_section c = doc_get doc ''section'' \<and> c_source_url c = doc_get doc ''source_url'' \<and>
            Some (c_country c) = doc ''country'' \<and> Some (c_category c) = doc ''category''"
proof -
  from assms obtain content where content: "doc ''content'' = Some content"
    and mk: "make_chunks doc (length (split_into_chunks n (clean_text content))) 0
               (split_into_chunks n (clean_text content)) = Inr g"
    by (auto simp: doc_chunks_def Let_def split: option.splits)
  note props = make_chunks_props[OF mk]
  from make_chunks_length[OF mk] have len: "length g = length (split_into_chunks n (clean_text content))"
    .
  from content props show "\<exists>content. doc ''content'' = Some content \<and>
           map c_text g = split_into_chunks n (clean_text content)"
    by simp
  from props len show "map c_chunk_id g = [0..<length g]"
    by simp
  from props len show "\<forall>c\<in>set g. c_total_chunks c = length g \<and> Some (c_title c) = doc ''title'' \<and>
            c_section c = doc_get doc ''section'' \<and> c_source_url c = doc_get doc ''source_url'' \<and>
            Some (c_country c) = doc ''country'' \<and> Some (c_category c) = doc ''category''"
    by simp
qed

text \<open>
  C6. When a document of the batch lacks a required field, \<open>process_documents\<close> raises a
  \<open>KeyError\<close> that names a missing field of a document of the batch (the first missing field
  of the first such document), and returns no chunk list at all. The chunk size is taken
  non-negative, as a maximal size is.
\<close>

theorem process_documents_missing_field:
  assumes "0 \<le> chunk_size" and "d \<in> set documents" and "first_missing d \<noteq> None"
  shows "\<exists>d' f. d' \<in> set documents \<and> first_missing d' = Some f \<and>
                process_documents chunk_size documents = Inl (KeyError f)"
  unfolding process_documents_def using assms by (rule process_loop_missing)

theorem process_documents_missing_field_witness:
  "(0::int) \<le> 500 \<and> untitled_document \<in> set [new_document, untitled_document] \<and>
   first_missing untitled_document = Some ''title'' \<and>
   process_documents 500 [new_document, untitled_document] = Inl (KeyError ''title'')"
proof -
  have m: "first_missing untitled_document = Some ''title''"
    by (simp add: first_missing_def required_fields_def untitled_document_def)
  have n: "first_missing new_document = None"
    by (simp add: first_missing_def required_fields_def new_document_def)
  from m process_documents_missing_field[of 500 untitled_document "[new_document, untitled_document]"]
  obtain d' f where "d' \<in> set [new_document, untitled_document]" "first_missing d' = Some f"
    "process_documents 500 [new_document, untitled_document] = Inl (KeyError f)"
    by auto
  with m n show ?thesis
    by auto
qed

text \<open>
  C7. The result of \<open>process_documents\<close> is the concatenation, in document order, of the
  chunks of each document; within the chunks of one document the chunk ids are
  \<open>0, 1, ..., totalChunks - 1\<close> in order, and all of them carry the document's title,
  section, source url, country and category and the same total.
\<close>

theorem process_documents_chunk_ids:
  assumes "process_documents n documents = Inr out"
  shows "out = concat (map (chunks_of_doc n) documents) \<and>
         (\<forall>doc\<in>set documents.
            map c_chunk_id (chunks_of_doc n doc) = [0..<length (chunks_of_doc n doc)] \<and>
            (\<forall>c\<in>set (chunks_of_doc n doc).
               c_total_chunks c = length (chunks_of_doc n doc) \<and>
               Some (c_title c) = doc ''title'' \<and>
               c_section c = doc_get doc ''section'' \<and>
               c_source_url c = doc_get doc ''source_url'' \<and>
               Some (c_country c) = doc ''country'' \<and>
               Some (c_category c) = doc ''category''))"
proof -
  from assms have loop: "process_loop n [] documents = Inr out"
    by (simp add: process_documents_def)
  note groups = process_loop_groups[OF loop]
  from groups have "out = concat (map (chunks_of_doc n) documents)"
    by simp
  moreover have "\<forall>doc\<in>set documents.
            map c_chunk_id (chunks_of_doc n doc) = [0..<length (chunks_of_doc n doc)] \<and>
            (\<forall>c\<in>set (chunks_of_doc n doc).
               c_total_chunks c = length (chunks_of_doc n doc) \<and>
               Some (c_title c) = doc ''title'' \<and>
               c_section c = doc_get doc ''section'' \<and>
               c_source_url c = doc_get doc ''source_url'' \<and>
               Some (c_country c) = doc ''country'' \<and>
               Some (c_category c) = doc ''category'')"
  proof
    fix doc assume "doc \<in> set documents"
    with groups have "doc_chunks n doc = Inr (chunks_of_doc n doc)"
      by simp
    from doc_chunks_props(2,3)[OF this]
    show "map c_chunk_id (chunks_of_doc n doc) = [0..<length (chunks_of_doc n doc)] \<and>
            (\<forall>c\<in>set (chunks_of_doc n doc).
               c_total_chunks c = length (chunks_of_doc n doc) \<and>
               Some (c_title c) = doc ''title'' \<and>
               c_section c = doc_get doc ''section'' \<and>
               c_source_url c = doc_get doc ''source_url'' \<and>
               Some (c_country c) = doc ''country'' \<and>
               Some (c_category c) = doc ''category'')"
      by simp
  qed
  ultimately show ?thesis
    by simp
qed

lemma two_chunk_document_chunks:
  "doc_chunks 12 two_chunk_document =
     Inr [\<lparr>c_text = ord_str ''Work visa.'', c_title = ord_str ''Act'', c_section = ord_str ''5'',
           c_source_url = [], c_country = ord_str ''india'', c_category = ord_str ''labor'',
           c_chunk_id = 0, c_total_chunks = 2\<rparr>,
          \<lparr>c_text = ord_str ''Study visa.'', c_title = ord_str ''Act'', c_section = ord_str ''5'',
           c_source_url = [], c_country = ord_str ''india'', c_category = ord_str ''labor'',
           c_chunk_id = 1, c_total_chunks = 2\<rparr>]"
  by (simp add: doc_chunks_def make_chunk_def doc_get_def two_chunk_document_def text_eval)

theorem process_documents_chunk_ids_witness:
  "process_documents 12 [two_chunk_document] =
     Inr [\<lparr>c_text = ord_str ''Work visa.'', c_title = ord_str ''Act'', c_section = ord_str ''5'',
           c_source_url = [], c_country = ord_str ''india'', c_category = ord_str ''labor'',
           c_chunk_id = 0, c_total_chunks = 2\<rparr>,
          \<lparr>c_text = ord_str ''Study visa.'', c_title = ord_str ''Act'', c_section = ord_str ''5'',
           c_source_url = [], c_country = ord_str ''india'', c_category = ord_str ''labor'',
           c_chunk_id = 1, c_total_chunks = 2\<rparr>] \<and>
   map c_chunk_id (chunks_of_doc 12 two_chunk_document) = [0, 1] \<and>
   map c_total_chunks (chunks_of_doc 12 two_chunk_document) = [2, 2] \<and>
   map c_section (chunks_of_doc 12 two_chunk_document) = [ord_str ''5'', ord_str ''5'']"
proof -
  have p: "process_documents 12 [two_chunk_document] =
     Inr [\<lparr>c_text = ord_str ''Work visa.'', c_title = ord_str ''Act'', c_section = ord_str ''5'',
           c_source_url = [], c_country = ord_str ''india'', c_category = ord_str ''labor'',
           c_chunk_id = 0, c_total_chunks = 2\<rparr>,
          \<lparr>c_text = ord_str ''Study visa.'', c_title = ord_str ''Act'', c_section = ord_str ''5'',
           c_source_url = [], c_country = ord_str ''india'', c_category = ord_str ''labor'',
           c_chunk_id = 1, c_total_chunks = 2\<rparr>]"
    by (simp add: process_documents_def two_chunk_document_chunks)
  from process_documents_chunk_ids[OF p] p show ?thesis
    by (simp add: chunks_of_doc_def two_chunk_document_chunks)
qed

text \<open>
  C8, as stated: every chunk has a non-empty text. A document whose content is a single space
  (or empty, or made of non-printable characters only) is cleaned to the empty string, which
  \<open>split_into_chunks\<close> returns as the one chunk of the document.
\<close>

theorem process_documents_empty_chunk:
  "process_documents 500 [blank_document] =
     Inr [\<lparr>c_text = [], c_title = ord_str ''Act'', c_section = [],
           c_source_url = [], c_country = ord_str ''india'', c_category = ord_str ''labor'',
           c_chunk_id = 0, c_total_chunks = 1\<rparr>]"
  by (simp add: process_documents_def doc_chunks_def make_chunk_def doc_get_def
      blank_document_def text_eval)

text \<open>
  C8, amended: every chunk produced from a document whose cleaned content is not empty has a
  non-empty text.
\<close>

theorem process_documents_nonempty_text:
  assumes "process_documents n documents = Inr out"
  shows "out = concat (map (chunks_of_doc n) documents) \<and>
         (\<forall>doc\<in>set documents. \<forall>content.
            doc ''content'' = Some content \<and> clean_text content \<noteq> [] \<longrightarrow>
            (\<forall>c\<in>set (chunks_of_doc n doc). c_text c \<noteq> []))"
proof -
  from assms have loop: "process_loop n [] documents = Inr out"
    by (simp add: process_documents_def)
  note groups = process_loop_groups[OF loop]
  have "\<forall>doc\<in>set documents. \<forall>content.
            doc ''content'' = Some content \<and> clean_text content \<noteq> [] \<longrightarrow>
            (\<forall>c\<in>set (chunks_of_doc n doc). c_text c \<noteq> [])"
  proof (intro ballI allI impI)
    fix doc content c
    assume doc: "doc \<in> set documents"
      and content: "doc ''content'' = Some content \<and> clean_text content \<noteq> []"
      and c: "c \<in> set (chunks_of_doc n doc)"
    from doc groups have "doc_chunks n doc = Inr (chunks_of_doc n doc)"
      by simp
    from doc_chunks_props(1)[OF this] content
    have "map c_text (chunks_of_doc n doc) = split_into_chunks n (clean_text content)"
      by auto
    with c have "c_text c \<in> set (split_into_chunks n (clean_text content))"
      by (metis image_eqI set_map)
    with content clean_text_last[of content] show "c_text c \<noteq> []"
      using split_into_chunks_nonempty_chunks by blast
  qed
  with groups show ?thesis
    by simp
qed

theorem process_documents_nonempty_text_witness:
  "process_documents 12 [two_chunk_document] =
     Inr (chunks_of_doc 12 two_chunk_document) \<and>
   two_chunk_document ''content'' = Some (ord_str ''Work visa.  Study visa.'') \<and>
   clean_text (ord_str ''Work visa.  Study visa.'') = ord_str ''Work visa. Study visa.'' \<and>
   map c_text (chunks_of_doc 12 two_chunk_document) = [ord_str ''Work visa.'', ord_str ''Study visa.'']"
proof -
  have p: "process_documents 12 [two_chunk_document] = Inr (chunks_of_doc 12 two_chunk_document)"
    by (simp add: process_documents_def chunks_of_doc_def two_chunk_document_chunks)
  have c: "two_chunk_document ''content'' = Some (ord_str ''Work visa.  Study visa.'')"
    by (simp add: two_chunk_document_def)
  have t: "clean_text (ord_str ''Work visa.  Study visa.'') = ord_str ''Work visa. Study visa.''"
    by (simp add: text_eval)
  from process_documents_nonempty_text[OF p] p c t show ?thesis
    by (simp add: chunks_of_doc_def two_chunk_document_chunks)
qed


section \<open>Properties of search: scores and keys\<close>

subsection \<open>Scores\<close>

lemma l2_sqr_nonneg: "0 \<le> l2_sqr x y"
  unfolding l2_sqr_def by (rule sum_list_nonneg) auto

lemma l2_sqr_same: "l2_sqr x x = 0"
  by (induction x) (simp_all add: l2_sqr_def)

lemma score_range: "0 < score q v \<and> score q v \<le> 1"
  using l2_sqr_nonneg[of q v] by (simp add: score_def)

lemma score_same: "score q q = 1"
  by (simp add: score_def l2_sqr_same)

lemma score_antimono: "l2_sqr q v \<le> l2_sqr q w \<Longrightarrow> score q w \<le> score q v"
  using l2_sqr_nonneg[of q v] by (simp add: score_def frac_le)

subsection \<open>The result loop\<close>

lemma py_index_in_range:
  "0 \<le> i \<Longrightarrow> i < int (length xs) \<Longrightarrow> py_index xs i = Inr (xs ! nat i)"
  by (simp add: py_index_def)

lemma py_index_member: "py_index xs i = Inr x \<Longrightarrow> x \<in> set xs"
  by (auto simp: py_index_def split: if_splits)

lemma collect_results_in_range:
  assumes "\<forall>(distance, idx)\<in>set found. 0 \<le> idx \<and> idx < int (length cs)"
  shows "collect_results cs found =
         Inr (map (\<lambda>(distance, idx).
                (cs ! nat idx)(''similarity_score'' \<mapsto> PyFloat (1 / (1 + distance)))) found)"
  using assms
proof (induction found)
  case Nil
  then show ?case by simp
next
  case (Cons p found)
  obtain distance idx where p: "p = (distance, idx)"
    by (cases p)
  with Cons.prems have range: "0 \<le> idx" "idx < int (length cs)"
    and rest: "\<forall>(distance, idx)\<in>set found. 0 \<le> idx \<and> idx < int (length cs)"
    by simp_all
  note ih = Cons.IH[OF rest]
  from range have "py_index cs idx = Inr (cs ! nat idx)"
    by (rule py_index_in_range)
  with range(2) show ?case
    unfolding p by (simp only: collect_results.simps ih if_True sum.case list.map prod.case)
qed

lemma collect_results_members:
  assumes "collect_results cs found = Inr results" and "res \<in> set results"
  shows "\<exists>chunk\<in>set cs. \<exists>s. res = chunk(''similarity_score'' \<mapsto> PyFloat s)"
  using assms
proof (induction found arbitrary: results)
  case Nil
  then show ?case by simp
next
  case (Cons a found)
  obtain distance idx where a: "a = (distance, idx)"
    by (cases a)
  show ?case
  proof (cases "idx < int (length cs)")
    case True
    with Cons.prems(1) a obtain chunk rest where chunk: "py_index cs idx = Inr chunk"
      and rest: "collect_results cs found = Inr rest"
      and results: "results = chunk(''similarity_score'' \<mapsto> PyFloat (1 / (1 + distance))) # rest"
      by (auto split: sum.splits)
    from Cons.prems(2) results consider
      "res = chunk(''similarity_score'' \<mapsto> PyFloat (1 / (1 + distance)))" | "res \<in> set rest"
      by auto
    then show ?thesis
    proof cases
      case 1
      with py_index_member[OF chunk] show ?thesis by blast
    next
      case 2
      from Cons.IH[OF rest 2] show ?thesis .
    qed
  next
    case False
    with Cons.prems(1) a have "collect_results cs found = Inr results"
      by simp
    from Cons.IH[OF this Cons.prems(2)] show ?thesis .
  qed
qed

lemma ranked_members:
  assumes "(distance, idx) \<in> set (sort_key fst (zip (map (l2_sqr q) vs) (map int [0..<length vs])))"
  shows "0 \<le> idx \<and> idx < int (length vs) \<and> distance = l2_sqr q (vs ! nat idx)"
proof -
  from assms have "(distance, idx) \<in> set (zip (map (l2_sqr q) vs) (map int [0..<length vs]))"
    by simp
  then obtain j where "j < length vs" "distance = l2_sqr q (vs ! j)" "idx = int j"
    by (auto simp: set_zip)
  then show ?thesis by simp
qed


lemma search_loaded:
  assumes "index (self 0) = Some ix"
  shows "search encode_single self query top_k =
     (case index_search ix (encode_single query) top_k of
        Inl e \<Rightarrow> Inl e
      | Inr found \<Rightarrow> collect_results (chunks (self 0)) found)"
  using assms by (simp add: search_def)

text \<open>
  C5, as stated: each result carries the score \<open>1 / (1 + L2distance)\<close> of its vector to the
  query vector. For a stored vector at Euclidean distance 2 from the query the claim gives
  \<open>1/3\<close>; the code gives \<open>1/5\<close>, because the flat L2 index reports the squared distance 4.
\<close>

theorem search_squared_distance:
  "search zero_embedding (unshared far_retriever) (ord_str ''visa'') 1 =
     Inr [old_chunk(''similarity_score'' \<mapsto> PyFloat (1 / 5))] \<and>
   1 / (1 + l2_distance (zero_embedding (ord_str ''visa'')) [2]) = 1 / 3 \<and>
   PyFloat (1 / (1 + l2_distance (zero_embedding (ord_str ''visa'')) [2])) \<noteq> PyFloat (1 / 5)"
proof -
  have s: "sqrt 4 = 2"
    using real_sqrt_abs[of 2] by simp
  have d: "l2_distance (zero_embedding (ord_str ''visa'')) [2] = 2"
    by (simp add: l2_distance_def l2_sqr_def zero_embedding_def s)
  have "search zero_embedding (unshared far_retriever) (ord_str ''visa'') 1 =
     Inr [old_chunk(''similarity_score'' \<mapsto> PyFloat (1 / 5))]"
    by (simp add: search_def unshared_def far_retriever_def zero_embedding_def index_search_def
        ntotal_def l2_sqr_def py_index_def)
  with d show ?thesis
    by simp
qed

text \<open>
  C5, amended. On a loaded index with as many chunks as vectors, for a query of the index's
  dimension and \<open>1 \<le> top_k \<le> size\<close>, \<open>search\<close> returns \<open>top_k\<close> results; each is a stored
  chunk with the score \<open>1 / (1 + d)\<close> of its vector, \<open>d\<close> the squared L2 distance to the query
  vector; every score lies in \<open>(0, 1]\<close>, a vector identical to the query scores 1, and the
  results are ordered by non-increasing score.
\<close>

theorem search_similarity:
  assumes "index (self 0) = Some ix"
    and "length (chunks (self 0)) = ntotal ix"
    and "length (encode_single query) = ix_dim ix"
    and "1 \<le> top_k" and "top_k \<le> int (ntotal ix)"
  shows "\<exists>labels.
      search encode_single self query top_k =
        Inr (map (\<lambda>j. (chunks (self 0) ! j)
                   (''similarity_score'' \<mapsto> PyFloat (score (encode_single query) (ix_vectors ix ! j))))
               labels) \<and>
      length labels = nat top_k \<and>
      (\<forall>j\<in>set labels. j < ntotal ix \<and>
         0 < score (encode_single query) (ix_vectors ix ! j) \<and>
         score (encode_single query) (ix_vectors ix ! j) \<le> 1 \<and>
         (ix_vectors ix ! j = encode_single query \<longrightarrow>
            score (encode_single query) (ix_vectors ix ! j) = 1)) \<and>
      sorted_wrt (\<lambda>i j. score (encode_single query) (ix_vectors ix ! j)
                        \<le> score (encode_single query) (ix_vectors ix ! i)) labels"
proof -
  define q where "q = encode_single query"
  define vs where "vs = ix_vectors ix"
  define cs where "cs = chunks (self 0)"
  define ranked where "ranked = sort_key fst (zip (map (l2_sqr q) vs) (map int [0..<length vs]))"
  define found where "found = take (nat top_k) ranked"
  define labels where "labels = map (\<lambda>p. nat (snd p)) found"
  have len_ranked: "length ranked = length vs"
    by (simp add: ranked_def)
  from assms(4,5) have k: "nat top_k \<le> length vs"
    by (simp add: ntotal_def vs_def)
  have members: "0 \<le> idx \<and> idx < int (length vs) \<and> distance = l2_sqr q (vs ! nat idx)"
    if "(distance, idx) \<in> set found" for distance idx
  proof -
    from that have "(distance, idx) \<in> set ranked"
      unfolding found_def by (rule in_set_takeD)
    then show ?thesis
      unfolding ranked_def by (rule ranked_members)
  qed
  have "index_search ix q top_k = Inr (found @ replicate (nat top_k - length ranked) (FLT_MAX, - 1))"
    using assms(3,4)
    by (simp add: index_search_def q_def found_def ranked_def vs_def ntotal_def Let_def)
  with k len_ranked have found: "index_search ix q top_k = Inr found"
    by simp
  from assms(2) have len_cs: "length cs = length vs"
    by (simp add: cs_def vs_def ntotal_def)
  have "\<forall>(distance, idx)\<in>set found. 0 \<le> idx \<and> idx < int (length cs)"
    using members len_cs by auto
  then have "collect_results cs found =
      Inr (map (\<lambda>(distance, idx).
             (cs ! nat idx)(''similarity_score'' \<mapsto> PyFloat (1 / (1 + distance)))) found)"
    by (rule collect_results_in_range)
  also have "map (\<lambda>(distance, idx).
             (cs ! nat idx)(''similarity_score'' \<mapsto> PyFloat (1 / (1 + distance)))) found =
      map (\<lambda>j. (cs ! j)(''similarity_score'' \<mapsto> PyFloat (score q (vs ! j)))) labels"
    unfolding labels_def map_map
  proof (rule map_cong[OF refl])
    fix p assume "p \<in> set found"
    then have "fst p = l2_sqr q (vs ! nat (snd p))"
      using members[of "fst p" "snd p"] by simp
    then show "(case p of (distance, idx) \<Rightarrow>
             (cs ! nat idx)(''similarity_score'' \<mapsto> PyFloat (1 / (1 + distance)))) =
          ((\<lambda>j. (cs ! j)(''similarity_score'' \<mapsto> PyFloat (score q (vs ! j)))) \<circ>
           (\<lambda>p. nat (snd p))) p"
      by (cases p) (simp add: score_def)
  qed
  finally have result: "search encode_single self query top_k =
      Inr (map (\<lambda>j. (cs ! j)(''similarity_score'' \<mapsto> PyFloat (score q (vs ! j)))) labels)"
    using found by (simp add: search_loaded[of self ix, OF assms(1)] q_def cs_def)
  have len_labels: "length labels = nat top_k"
    using k len_ranked by (simp add: labels_def found_def)
  have each: "\<forall>j\<in>set labels. j < ntotal ix \<and> 0 < score q (vs ! j) \<and> score q (vs ! j) \<le> 1 \<and>
      (vs ! j = q \<longrightarrow> score q (vs ! j) = 1)"
  proof
    fix j assume "j \<in> set labels"
    then obtain p where p: "p \<in> set found" "j = nat (snd p)"
      by (auto simp: labels_def)
    with members[of "fst p" "snd p"] have "j < length vs"
      by (simp add: nat_less_iff)
    then show "j < ntotal ix \<and> 0 < score q (vs ! j) \<and> score q (vs ! j) \<le> 1 \<and>
      (vs ! j = q \<longrightarrow> score q (vs ! j) = 1)"
      using score_range[of q "vs ! j"] score_same[of q] by (auto simp: ntotal_def vs_def)
  qed
  have "sorted (map fst ranked)"
    unfolding ranked_def by (rule sorted_sort_key)
  then have "sorted (take (nat top_k) (map fst ranked))"
    by (rule sorted_wrt_take)
  then have "sorted (map fst found)"
    by (simp only: found_def take_map)
  then have "sorted_wrt (\<lambda>a b. fst a \<le> fst b) found"
    by (simp only: sorted_map)
  then have "sorted_wrt (\<lambda>a b. score q (vs ! nat (snd b)) \<le> score q (vs ! nat (snd a))) found"
  proof (rule sorted_wrt_mono_rel[rotated])
    fix a b assume a: "a \<in> set found" and b: "b \<in> set found" and le: "fst a \<le> fst b"
    from a members[of "fst a" "snd a"] have "fst a = l2_sqr q (vs ! nat (snd a))"
      by simp
    moreover from b members[of "fst b" "snd b"] have "fst b = l2_sqr q (vs ! nat (snd b))"
      by simp
    ultimately show "score q (vs ! nat (snd b)) \<le> score q (vs ! nat (snd a))"
      using le by (simp add: score_antimono)
  qed
  then have ordered: "sorted_wrt (\<lambda>i j. score q (vs ! j) \<le> score q (vs ! i)) labels"
    by (simp add: labels_def sorted_wrt_map)
  from result len_labels each ordered show ?thesis
    unfolding q_def vs_def cs_def by blast
qed

theorem search_similarity_witness:
  "index (unshared two_vector_retriever 0) = Some \<lparr>ix_dim = 1, ix_vectors = [[3], [0]]\<rparr> \<and>
   length (chunks (unshared two_vector_retriever 0)) = ntotal \<lparr>ix_dim = 1, ix_vectors = [[3], [0]]\<rparr> \<and>
   length (zero_embedding (ord_str ''visa'')) = ix_dim \<lparr>ix_dim = 1, ix_vectors = [[3], [0]]\<rparr> \<and>
   (1::int) \<le> 2 \<and> 2 \<le> int (ntotal \<lparr>ix_dim = 1, ix_vectors = [[3], [0]]\<rparr>) \<and>
   search zero_embedding (unshared two_vector_retriever) (ord_str ''visa'') 2 =
     Inr [other_chunk(''similarity_score'' \<mapsto> PyFloat 1),
          old_chunk(''similarity_score'' \<mapsto> PyFloat (1 / 10))]"
proof -
  have h: "index (unshared two_vector_retriever 0) = Some \<lparr>ix_dim = 1, ix_vectors = [[3], [0]]\<rparr>"
    "length (chunks (unshared two_vector_retriever 0)) = ntotal \<lparr>ix_dim = 1, ix_vectors = [[3], [0]]\<rparr>"
    "length (zero_embedding (ord_str ''visa'')) = ix_dim \<lparr>ix_dim = 1, ix_vectors = [[3], [0]]\<rparr>"
    "(1::int) \<le> 2" "2 \<le> int (ntotal \<lparr>ix_dim = 1, ix_vectors = [[3], [0]]\<rparr>)"
    by (simp_all add: unshared_def two_vector_retriever_def ntotal_def zero_embedding_def)
  have "search zero_embedding (unshared two_vector_retriever) (ord_str ''visa'') 2 =
     Inr [other_chunk(''similarity_score'' \<mapsto> PyFloat 1),
          old_chunk(''similarity_score'' \<mapsto> PyFloat (1 / 10))]"
    by (simp add: search_def unshared_def two_vector_retriever_def zero_embedding_def
        index_search_def ntotal_def l2_sqr_def py_index_def numeral_2_eq_2 upt_rec)
  with h search_similarity[of "unshared two_vector_retriever"
      "\<lparr>ix_dim = 1, ix_vectors = [[3], [0]]\<rparr>" zero_embedding "ord_str ''visa''" 2, OF h]
  show ?thesis
    by simp
qed

subsection \<open>The keys of a result\<close>

lemma dom_chunk_dict_of:
  "dom (chunk_dict_of chunk) =
     {''text'', ''title'', ''section'', ''source_url'', ''country'', ''category'', ''chunk_id''}"
  by (auto simp: chunk_dict_of_def split: if_splits)

lemma build_index_chunks:
  assumes "build_index env self = (built, None)"
  shows "\<exists>chunk_objects. chunks built = map chunk_dict_of chunk_objects"
  using assms
  by (auto simp: build_index_def Let_def split: sum.splits list.splits)

text \<open>
  C10. After a successful \<open>build_index\<close>, every element of a \<open>search\<close> result has exactly
  the keys \<open>text\<close>, \<open>title\<close>, \<open>section\<close>, \<open>source_url\<close>, \<open>country\<close>, \<open>category\<close>,
  \<open>chunk_id\<close> and \<open>similarity_score\<close>; the \<open>total_chunks\<close> of the DocumentChunk is not
  among them.
\<close>

theorem search_result_keys:
  assumes "build_index env self = (built, None)"
    and "search encode_single (unshared built) query top_k = Inr results"
    and "res \<in> set results"
  shows "dom res = {''text'', ''title'', ''section'', ''source_url'', ''country'', ''category'',
                    ''chunk_id'', ''similarity_score''} \<and>
         res ''total_chunks'' = None"
proof -
  from build_index_chunks[OF assms(1)] obtain chunk_objects
    where cs: "chunks built = map chunk_dict_of chunk_objects"
    by blast
  from assms(2) obtain found where "collect_results (chunks built) found = Inr results"
    by (auto simp: search_def unshared_def Let_def split: option.splits sum.splits if_splits)
  from collect_results_members[OF this assms(3)] cs obtain chunk s
    where res: "res = (chunk_dict_of chunk)(''similarity_score'' \<mapsto> PyFloat s)"
    by auto
  have d: "dom res = {''text'', ''title'', ''section'', ''source_url'', ''country'', ''category'',
                    ''chunk_id'', ''similarity_score''}"
    unfolding res by (simp add: dom_chunk_dict_of insert_commute)
  then have "''total_chunks'' \<notin> dom res"
    by simp
  then have "res ''total_chunks'' = None"
    by (simp only: domIff not_not)
  with d show ?thesis
    by (rule conjI)
qed

theorem search_result_keys_witness:
  "build_index build_succeeds working_retriever = (rebuilt_retriever, None) \<and>
   search zero_embedding (unshared rebuilt_retriever) (ord_str ''visa'') 1 =
     Inr [new_chunk(''similarity_score'' \<mapsto> PyFloat 1)] \<and>
   dom (new_chunk(''similarity_score'' \<mapsto> PyFloat 1)) =
     {''text'', ''title'', ''section'', ''source_url'', ''country'', ''category'',
      ''chunk_id'', ''similarity_score''} \<and>
   (new_chunk(''similarity_score'' \<mapsto> PyFloat 1)) ''total_chunks'' = None"
proof -
  have b: "build_index build_succeeds working_retriever = (rebuilt_retriever, None)"
    by (simp add: build_index_def build_succeeds_def process_new_document working_retriever_def
        rebuilt_retriever_def new_chunk_def)
  have s: "search zero_embedding (unshared rebuilt_retriever) (ord_str ''visa'') 1 =
     Inr [new_chunk(''similarity_score'' \<mapsto> PyFloat 1)]"
    by (simp add: search_def unshared_def rebuilt_retriever_def zero_embedding_def
        index_search_def ntotal_def l2_sqr_def py_index_def)
  from search_result_keys[OF b s, of "new_chunk(''similarity_score'' \<mapsto> PyFloat 1)"] b s
  show ?thesis
    by simp
qed

end
